theory Spec2Isabelle
  imports Complex_Main
begin

section \<open>The flight game of static/flight.js\<close>

text \<open>
  The game state of \<^verbatim>\<open>static/flight.js\<close> is a handful of module-level variables, the
  position of the \<^verbatim>\<open>plane\<close> mesh and the array \<^verbatim>\<open>rings\<close>. The model passes that state
  explicitly as a record. JavaScript numbers are modelled as real numbers: rounding,
  infinities and NaN of IEEE doubles are outside the model. The scene, the camera, the
  renderer and the DOM elements are written but never read by the game logic and are
  left out.
\<close>

subsection \<open>Data\<close>

text \<open>\<^verbatim>\<open>THREE.Vector3\<close>: the \<^verbatim>\<open>position\<close> of a mesh.\<close>

record vector3 =
  pos_x :: real
  pos_y :: real
  pos_z :: real

text \<open>
  A ring mesh: the two parameters of its \<^verbatim>\<open>TorusGeometry\<close>, its position and the custom
  property \<^verbatim>\<open>checked\<close>.
\<close>

record ring =
  radius :: real
  tube :: real
  position :: vector3
  checked :: bool

text \<open>Of a \<^verbatim>\<open>Gamepad\<close> object only the array \<^verbatim>\<open>axes\<close> is read.\<close>

record gamepad =
  axes :: "real list"

text \<open>
  \<^verbatim>\<open>navigator.getGamepads()\<close>: an array indexed by gamepad index whose entries are
  \<^verbatim>\<open>Gamepad\<close> objects or \<^verbatim>\<open>null\<close>. It belongs to the browser and may differ at every call.
\<close>

type_synonym gamepads = "nat \<Rightarrow> gamepad option"

record game =
  plane :: vector3
  rings :: "ring list"
  gameStarted :: bool
  crashed :: bool
  score :: int
  pitch :: real
  gamepadIndex :: "nat option"

subsection \<open>Constants\<close>

definition numRings :: int where
  "numRings = 10"

definition ringSpacing :: real where
  "ringSpacing = 150"

definition ringMajorRadius :: real where
  "ringMajorRadius = 8"

definition ringTubeRadius :: real where
  "ringTubeRadius = 7 / 10"

definition innerRadius :: real where
  "innerRadius = ringMajorRadius - ringTubeRadius"

definition outerRadius :: real where
  "outerRadius = ringMajorRadius + ringTubeRadius"

definition level1Altitude :: real where
  "level1Altitude = 0"

definition level2Altitude :: real where
  "level2Altitude = 6"

definition speed :: real where
  "speed = 100 / 60"

subsection \<open>Creating the rings\<close>

text \<open>
  The loop \<^verbatim>\<open>for (let i = 0; i < numRings; i++)\<close> that builds and pushes the rings. The
  source reads the count, the spacing and the two radii from constants; here they are
  parameters, and \<open>createRings\<close> instantiates them with the constants.
\<close>

definition newRing :: "int \<Rightarrow> real \<Rightarrow> real \<Rightarrow> real \<Rightarrow> ring" where
  "newRing i spacing major minor =
     \<lparr> radius = major, tube = minor,
       position = \<lparr> pos_x = 0,
                    pos_y = (if i mod 2 = 0 then level1Altitude else level2Altitude),
                    pos_z = - real_of_int i * spacing + 300 \<rparr>,
       checked = False \<rparr>"

function pushRings :: "int \<Rightarrow> int \<Rightarrow> real \<Rightarrow> real \<Rightarrow> real \<Rightarrow> ring list" where
  "pushRings i n spacing major minor =
     (if i < n then newRing i spacing major minor # pushRings (i + 1) n spacing major minor
      else [])"
  by pat_completeness auto
termination
  by (relation "measure (\<lambda>(i, n, spacing, major, minor). nat (n - i))") auto

definition createRings :: "ring list" where
  "createRings = pushRings 0 numRings ringSpacing ringMajorRadius ringTubeRadius"

text \<open>The state after the script has been loaded.\<close>

definition initialGame :: game where
  "initialGame =
     \<lparr> plane = \<lparr> pos_x = 0, pos_y = 0, pos_z = 500 \<rparr>,
       rings = createRings,
       gameStarted = False, crashed = False, score = 0, pitch = 0,
       gamepadIndex = None \<rparr>"

subsection \<open>Gamepad input\<close>

text \<open>
  \<^verbatim>\<open>updateGamepadInput\<close>. Reading \<^verbatim>\<open>gamepad.axes[3]\<close> of a pad with fewer than four axes
  gives \<^verbatim>\<open>undefined\<close> and makes \<^verbatim>\<open>pitch\<close> NaN; the model has no such number and returns
  \<open>None\<close> there.
\<close>

definition updateGamepadInput :: "gamepads \<Rightarrow> game \<Rightarrow> game option" where
  "updateGamepadInput pads s =
     (case gamepadIndex s of
        None \<Rightarrow> Some s
      | Some idx \<Rightarrow>
          (if crashed s then Some s
           else case pads idx of
                  None \<Rightarrow> Some s
                | Some g \<Rightarrow>
                    (if 3 < length (axes g) then Some (s\<lparr>pitch := axes g ! 3 * (2 / 10)\<rparr>)
                     else None)))"

subsection \<open>Checking the rings\<close>

datatype outcome = Scored | Crashed | Missed

text \<open>The distance computed from \<^verbatim>\<open>dx\<close> and \<^verbatim>\<open>dy\<close> in \<^verbatim>\<open>checkRings\<close>.\<close>

definition distance :: "vector3 \<Rightarrow> ring \<Rightarrow> real" where
  "distance p r =
     (let dx = pos_x p - pos_x (position r);
          dy = pos_y p - pos_y (position r)
      in sqrt (dx * dx + dy * dy))"

text \<open>The branches of \<^verbatim>\<open>checkRings\<close> on the distance, in the order of the source.\<close>

definition judge :: "real \<Rightarrow> outcome" where
  "judge d =
     (if d < innerRadius then Scored
      else if d \<ge> innerRadius \<and> d \<le> outerRadius then Crashed
      else Missed)"

text \<open>The condition under which \<^verbatim>\<open>checkRings\<close> processes a ring.\<close>

definition passed :: "vector3 \<Rightarrow> ring \<Rightarrow> bool" where
  "passed p r = (\<not> checked r \<and> pos_z p < pos_z (position r))"

text \<open>
  The loop of \<^verbatim>\<open>checkRings\<close> from index \<open>i\<close> on. The \<^verbatim>\<open>return\<close> in the collision branch
  leaves the loop.
\<close>

function checkRingsFrom :: "nat \<Rightarrow> game \<Rightarrow> game" where
  "checkRingsFrom i s =
     (if i < length (rings s) then
        (if passed (plane s) (rings s ! i) then
           (case judge (distance (plane s) (rings s ! i)) of
              Scored \<Rightarrow>
                checkRingsFrom (i + 1)
                  (s\<lparr>rings := (rings s)[i := (rings s ! i)\<lparr>checked := True\<rparr>],
                     score := score s + 1\<rparr>)
            | Crashed \<Rightarrow>
                s\<lparr>rings := (rings s)[i := (rings s ! i)\<lparr>checked := True\<rparr>],
                  crashed := True\<rparr>
            | Missed \<Rightarrow>
                checkRingsFrom (i + 1)
                  (s\<lparr>rings := (rings s)[i := (rings s ! i)\<lparr>checked := True\<rparr>]\<rparr>))
         else checkRingsFrom (i + 1) s)
      else s)"
  by pat_completeness auto
termination
  by (relation "measure (\<lambda>(i, s). length (rings s) - i)") auto

definition checkRings :: "game \<Rightarrow> game" where
  "checkRings s = checkRingsFrom 0 s"

subsection \<open>The animation loop, start and restart\<close>

text \<open>
  One call of \<^verbatim>\<open>animate\<close>. \<^verbatim>\<open>requestAnimationFrame(animate)\<close> only asks the browser for
  the next call, which is the event \<open>AnimationFrame\<close> below.
\<close>

definition animate :: "gamepads \<Rightarrow> game \<Rightarrow> game option" where
  "animate pads s =
     (if \<not> gameStarted s \<or> crashed s then Some s
      else case updateGamepadInput pads s of
             None \<Rightarrow> None
           | Some s1 \<Rightarrow>
               Some (checkRings
                 (s1\<lparr>plane := (plane s1)\<lparr>pos_z := pos_z (plane s1) - speed,
                                         pos_y := pos_y (plane s1) - pitch s1\<rparr>\<rparr>)))"

text \<open>\<^verbatim>\<open>startGame\<close> calls \<^verbatim>\<open>animate\<close> itself, so starting the game runs its first frame.\<close>

definition startGame :: "gamepads \<Rightarrow> game \<Rightarrow> game option" where
  "startGame pads s =
     (if \<not> gameStarted s then animate pads (s\<lparr>gameStarted := True\<rparr>) else Some s)"

text \<open>
  \<^verbatim>\<open>restartGame\<close>. Its loop sets \<^verbatim>\<open>checked\<close> to false in every element of \<^verbatim>\<open>rings\<close>; it
  writes neither \<^verbatim>\<open>pitch\<close> nor \<^verbatim>\<open>gamepadIndex\<close>.
\<close>

definition restartGame :: "game \<Rightarrow> game" where
  "restartGame s =
     s\<lparr>plane := \<lparr> pos_x = 0, pos_y = 0, pos_z = 500 \<rparr>,
       crashed := False,
       gameStarted := False,
       score := 0,
       rings := map (\<lambda>r. r\<lparr>checked := False\<rparr>) (rings s)\<rparr>"

subsection \<open>Events\<close>

text \<open>
  The listeners for \<^verbatim>\<open>keydown\<close> (with \<^verbatim>\<open>event.key\<close> and \<^verbatim>\<open>event.code\<close>),
  \<^verbatim>\<open>gamepadconnected\<close> (with \<^verbatim>\<open>event.gamepad.index\<close>) and \<^verbatim>\<open>gamepaddisconnected\<close>, and
  the animation frame callback.
\<close>

datatype event =
    KeyDown string string
  | GamepadConnected nat
  | GamepadDisconnected
  | AnimationFrame

fun handle :: "gamepads \<Rightarrow> event \<Rightarrow> game \<Rightarrow> game option" where
  "handle pads (KeyDown key code) s =
     (if key = '' '' \<or> code = ''Space'' then Some (restartGame s)
      else if \<not> gameStarted s \<and> \<not> crashed s then startGame pads s
      else Some s)"
| "handle pads (GamepadConnected idx) s =
     (if \<not> gameStarted s \<and> \<not> crashed s then startGame pads (s\<lparr>gamepadIndex := Some idx\<rparr>)
      else Some (s\<lparr>gamepadIndex := Some idx\<rparr>))"
| "handle pads GamepadDisconnected s = Some (s\<lparr>gamepadIndex := None\<rparr>)"
| "handle pads AnimationFrame s = animate pads s"

text \<open>The states the game reaches from the initial one.\<close>

inductive reachable :: "game \<Rightarrow> bool" where
  initial: "reachable initialGame"
| event: "reachable s \<Longrightarrow> handle pads e s = Some s' \<Longrightarrow> reachable s'"

text \<open>A sequence of events, each with the gamepads the browser reports at that moment.\<close>

fun run :: "(gamepads \<times> event) list \<Rightarrow> game \<Rightarrow> game option" where
  "run [] s = Some s"
| "run ((pads, e) # tr) s =
     (case handle pads e s of None \<Rightarrow> None | Some s' \<Rightarrow> run tr s')"

subsection \<open>Notions used in the statements\<close>

text \<open>The three states of the game, read off the two flags.\<close>

definition idle :: "game \<Rightarrow> bool" where
  "idle s = (\<not> gameStarted s \<and> \<not> crashed s)"

definition running :: "game \<Rightarrow> bool" where
  "running s = (gameStarted s \<and> \<not> crashed s)"

text \<open>The events on which the \<^verbatim>\<open>keydown\<close> listener calls \<^verbatim>\<open>restartGame\<close>.\<close>

fun restarts :: "event \<Rightarrow> bool" where
  "restarts (KeyDown key code) = (key = '' '' \<or> code = ''Space'')"
| "restarts e = False"

text \<open>No input device: no gamepad index is stored, or the browser has no pad at it.\<close>

definition noDevice :: "gamepads \<Rightarrow> game \<Rightarrow> bool" where
  "noDevice pads s =
     (case gamepadIndex s of None \<Rightarrow> True | Some i \<Rightarrow> pads i = None)"

text \<open>The pad that \<^verbatim>\<open>updateGamepadInput\<close> would read, if any, has a fourth axis.\<close>

definition readable :: "gamepads \<Rightarrow> game \<Rightarrow> bool" where
  "readable pads s =
     (case gamepadIndex s of
        None \<Rightarrow> True
      | Some i \<Rightarrow> (case pads i of None \<Rightarrow> True | Some g \<Rightarrow> 3 < length (axes g)))"

text \<open>
  For a plane position \<open>p\<close>: a ring that \<^verbatim>\<open>checkRings\<close> would process and find hit, one it
  would process and score, what processing does to a ring, and the index of the first
  ring of a list that is hit (the length of the list if none is).
\<close>

definition hits :: "vector3 \<Rightarrow> ring \<Rightarrow> bool" where
  "hits p r = (passed p r \<and> judge (distance p r) = Crashed)"

definition scores :: "vector3 \<Rightarrow> ring \<Rightarrow> bool" where
  "scores p r = (passed p r \<and> judge (distance p r) = Scored)"

definition process :: "vector3 \<Rightarrow> ring \<Rightarrow> ring" where
  "process p r = (if passed p r then r\<lparr>checked := True\<rparr> else r)"

definition firstHit :: "vector3 \<Rightarrow> ring list \<Rightarrow> nat" where
  "firstHit p rs = length (takeWhile (\<lambda>r. \<not> hits p r) rs)"

text \<open>
  How often the flag \<^verbatim>\<open>checked\<close> of ring \<open>i\<close> goes from false to true along a sequence of
  events.
\<close>

fun flips :: "nat \<Rightarrow> (gamepads \<times> event) list \<Rightarrow> game \<Rightarrow> nat" where
  "flips i [] s = 0"
| "flips i ((pads, e) # tr) s =
     (case handle pads e s of
        None \<Rightarrow> 0
      | Some s' \<Rightarrow>
          (if \<not> checked (rings s ! i) \<and> checked (rings s' ! i) then 1 else 0) + flips i tr s')"

subsection \<open>Example inputs\<close>

text \<open>The browser reports no gamepad; it reports one, at index 0, its right stick pushed down.\<close>

definition noPads :: gamepads where
  "noPads = (\<lambda>i. None)"

definition stickDown :: gamepad where
  "stickDown = \<lparr> axes = [0, 0, 0, 1] \<rparr>"

definition onePad :: gamepads where
  "onePad = (\<lambda>i. if i = 0 then Some stickDown else None)"

text \<open>
  The first two rings of the field, and a running game whose plane, at height \<open>y\<close>, is
  beyond both of them while neither has been checked.
\<close>

definition twoRings :: "ring list" where
  "twoRings = pushRings 0 2 ringSpacing ringMajorRadius ringTubeRadius"

definition crossing :: "real \<Rightarrow> game" where
  "crossing y =
     \<lparr> plane = \<lparr> pos_x = 0, pos_y = y, pos_z = 100 \<rparr>,
       rings = twoRings,
       gameStarted = True, crashed = False, score = 0, pitch = 0,
       gamepadIndex = None \<rparr>"

text \<open>A game that has crashed.\<close>

definition wrecked :: game where
  "wrecked =
     \<lparr> plane = \<lparr> pos_x = 0, pos_y = 8, pos_z = 100 \<rparr>,
       rings = map (\<lambda>r. r\<lparr>checked := True\<rparr>) twoRings,
       gameStarted = True, crashed = True, score = 1, pitch = 1 / 5,
       gamepadIndex = Some 0 \<rparr>"

text \<open>
  The game after a gamepad with its stick pushed down has been connected to the initial
  game: the listener has started the game, which has run one frame.
\<close>

definition diving :: game where
  "diving =
     initialGame\<lparr>gamepadIndex := Some 0, gameStarted := True, pitch := 1 / 5,
                 plane := \<lparr> pos_x = 0, pos_y = - (1 / 5), pos_z = 500 - speed \<rparr>\<rparr>"

text \<open>
  The game \<open>crossing 0\<close> after one frame: both rings scored. The game \<open>crossing (- 2)\<close>
  after one frame: the first ring scored, the second one hit.
\<close>

definition flown :: game where
  "flown =
     (crossing 0)\<lparr>plane := \<lparr> pos_x = 0, pos_y = 0, pos_z = 100 - speed \<rparr>,
                  rings := map (\<lambda>r. r\<lparr>checked := True\<rparr>) twoRings, score := 2\<rparr>"

definition clipped :: game where
  "clipped =
     (crossing (- 2))\<lparr>plane := \<lparr> pos_x = 0, pos_y = - 2, pos_z = 100 - speed \<rparr>,
                      rings := map (\<lambda>r. r\<lparr>checked := True\<rparr>) twoRings, score := 1,
                      crashed := True\<rparr>"

text \<open>
  A pad with its stick a third of the way down; the game \<open>n\<close> frames after that pad
  has been connected to the initial game, as long as no ring has been passed; and the
  game after frame 121, in which the plane hits the first ring.
\<close>

definition stickThird :: gamepad where
  "stickThird = \<lparr> axes = [0, 0, 0, 1 / 3] \<rparr>"

definition gentlePad :: gamepads where
  "gentlePad = (\<lambda>i. if i = 0 then Some stickThird else None)"

definition cruise :: "nat \<Rightarrow> game" where
  "cruise n =
     initialGame\<lparr>gamepadIndex := Some 0, gameStarted := True, pitch := 1 / 15,
                 plane := \<lparr> pos_x = 0, pos_y = - (real n / 15), pos_z = 500 - real n * speed \<rparr>\<rparr>"

definition downed :: game where
  "downed = (cruise 121)\<lparr>rings := createRings[0 := (createRings ! 0)\<lparr>checked := True\<rparr>],
                         crashed := True\<rparr>"

text \<open>
  The events of that game: the pad is connected, which runs the first frame, and 120
  more frames follow.
\<close>

definition crashRun :: "(gamepads \<times> event) list" where
  "crashRun = (gentlePad, GamepadConnected 0) # replicate 120 (gentlePad, AnimationFrame)"

section \<open>Properties\<close>

declare pushRings.simps [simp del]
declare checkRingsFrom.simps [simp del]

subsection \<open>The loop of checkRings in closed form\<close>

lemma checkRingsFrom_closed:
  "checkRingsFrom i s =
     s\<lparr>rings := take i (rings s) @
                 map (process (plane s))
                   (take (Suc (firstHit (plane s) (drop i (rings s)))) (drop i (rings s))) @
                 drop (Suc (firstHit (plane s) (drop i (rings s)))) (drop i (rings s)),
       score := score s + int (length (filter (scores (plane s))
                   (take (firstHit (plane s) (drop i (rings s))) (drop i (rings s))))),
       crashed := crashed s \<or> firstHit (plane s) (drop i (rings s)) < length (drop i (rings s))\<rparr>"
proof (induction i s rule: checkRingsFrom.induct)
  case (1 i s)
  note here = firstHit_def hits_def [of _ "rings s ! i"] scores_def [of _ "rings s ! i"]
    process_def [of _ "rings s ! i"]
  show ?case
  proof (cases "i < length (rings s)")
    case False
    then show ?thesis
      by (subst checkRingsFrom.simps) (simp add: firstHit_def)
  next
    case True
    then have d: "drop i (rings s) = rings s ! i # drop (Suc i) (rings s)"
      by (simp add: Cons_nth_drop_Suc)
    have t: "take (Suc i) (rings s) = take i (rings s) @ [rings s ! i]"
      using True by (simp add: take_Suc_conv_app_nth)
    show ?thesis
    proof (cases "passed (plane s) (rings s ! i)")
      case False
      then show ?thesis
        using True "1.IH"(3) d t
        by (subst checkRingsFrom.simps) (simp add: here)
    next
      case p: True
      show ?thesis
      proof (cases "judge (distance (plane s) (rings s ! i))")
        case Scored
        then show ?thesis
          using True p "1.IH"(1) d t
          by (subst checkRingsFrom.simps) (simp add: here take_Suc_conv_app_nth)
      next
        case Crashed
        then show ?thesis
          using True p d t
          by (subst checkRingsFrom.simps) (simp add: here upd_conv_take_nth_drop)
      next
        case Missed
        then show ?thesis
          using True p "1.IH"(2) d t
          by (subst checkRingsFrom.simps) (simp add: here take_Suc_conv_app_nth)
      qed
    qed
  qed
qed

lemma checkRings_plane [simp]: "plane (checkRings s) = plane s"
  and checkRings_gameStarted [simp]: "gameStarted (checkRings s) = gameStarted s"
  and checkRings_pitch [simp]: "pitch (checkRings s) = pitch s"
  and checkRings_gamepadIndex [simp]: "gamepadIndex (checkRings s) = gamepadIndex s"
  by (simp_all add: checkRings_def checkRingsFrom_closed)

lemma checkRings_rings:
  "rings (checkRings s) =
     map (process (plane s)) (take (Suc (firstHit (plane s) (rings s))) (rings s)) @
     drop (Suc (firstHit (plane s) (rings s))) (rings s)"
  by (simp add: checkRings_def checkRingsFrom_closed)

lemma checkRings_score:
  "score (checkRings s) =
     score s + int (length (filter (scores (plane s))
                              (take (firstHit (plane s) (rings s)) (rings s))))"
  by (simp add: checkRings_def checkRingsFrom_closed)

lemma checkRings_crashed:
  "crashed (checkRings s) = (crashed s \<or> firstHit (plane s) (rings s) < length (rings s))"
  by (simp add: checkRings_def checkRingsFrom_closed)

lemma length_checkRings [simp]: "length (rings (checkRings s)) = length (rings s)"
  by (simp add: checkRings_rings)

lemma nth_checkRings:
  "j < length (rings s) \<Longrightarrow>
   rings (checkRings s) ! j =
     (if j \<le> firstHit (plane s) (rings s) then process (plane s) (rings s ! j) else rings s ! j)"
  by (auto simp add: checkRings_rings nth_append min_def)

lemma position_process [simp]: "position (process p r) = position r"
  by (simp add: process_def)

lemma checked_process: "checked r \<Longrightarrow> checked (process p r)"
  by (simp add: process_def)

lemma checked_checkRings:
  "j < length (rings s) \<Longrightarrow> checked (rings s ! j) \<Longrightarrow> checked (rings (checkRings s) ! j)"
  by (simp add: nth_checkRings checked_process)

lemma score_checkRings_mono: "score s \<le> score (checkRings s)"
  by (simp add: checkRings_score)

lemma animate_cases:
  assumes "animate pads s = Some s'"
  obtains "\<not> running s" "s' = s"
  | s1 where "running s" "updateGamepadInput pads s = Some s1"
      "s' = checkRings (s1\<lparr>plane := (plane s1)\<lparr>pos_z := pos_z (plane s1) - speed,
                                              pos_y := pos_y (plane s1) - pitch s1\<rparr>\<rparr>)"
  using assms by (auto simp: animate_def running_def split: if_splits option.splits)

lemma updateGamepadInput_pitch:
  "updateGamepadInput pads s = Some s1 \<Longrightarrow> s1 = s\<lparr>pitch := pitch s1\<rparr>"
  by (auto simp: updateGamepadInput_def split: option.splits if_splits)

subsection \<open>The example inputs\<close>

lemma twoRings_eq:
  "twoRings =
     [\<lparr> radius = 8, tube = 7 / 10, position = \<lparr> pos_x = 0, pos_y = 0, pos_z = 300 \<rparr>,
        checked = False \<rparr>,
      \<lparr> radius = 8, tube = 7 / 10, position = \<lparr> pos_x = 0, pos_y = 6, pos_z = 150 \<rparr>,
        checked = False \<rparr>]"
  by (simp add: twoRings_def pushRings.simps newRing_def ringSpacing_def ringMajorRadius_def
      ringTubeRadius_def level1Altitude_def level2Altitude_def)

lemma crossing_simps [simp]:
  "plane (crossing y) = \<lparr> pos_x = 0, pos_y = y, pos_z = 100 \<rparr>"
  "rings (crossing y) = twoRings"
  "gameStarted (crossing y)" "\<not> crashed (crossing y)" "score (crossing y) = 0"
  "pitch (crossing y) = 0" "gamepadIndex (crossing y) = None"
  by (simp_all add: crossing_def)

subsection \<open>Judging a ring\<close>

lemma radii: "innerRadius = 73 / 10" "outerRadius = 87 / 10"
  by (simp_all add: innerRadius_def outerRadius_def ringMajorRadius_def ringTubeRadius_def)

lemma judge_iff:
  "(judge d = Scored) = (d < innerRadius)"
  "(judge d = Crashed) = (innerRadius \<le> d \<and> d \<le> outerRadius)"
  "(judge d = Missed) = (outerRadius < d)"
  by (auto simp add: judge_def radii)

lemma checkRingsFrom_passed:
  assumes "i < length (rings s)" "passed (plane s) (rings s ! i)"
  shows "checkRingsFrom i s =
        (case judge (distance (plane s) (rings s ! i)) of
           Scored \<Rightarrow> checkRingsFrom (Suc i)
                       (s\<lparr>rings := (rings s)[i := (rings s ! i)\<lparr>checked := True\<rparr>],
                          score := score s + 1\<rparr>)
         | Crashed \<Rightarrow> s\<lparr>rings := (rings s)[i := (rings s ! i)\<lparr>checked := True\<rparr>],
                         crashed := True\<rparr>
         | Missed \<Rightarrow> checkRingsFrom (Suc i)
                       (s\<lparr>rings := (rings s)[i := (rings s ! i)\<lparr>checked := True\<rparr>]\<rparr>))"
  using assms by (subst checkRingsFrom.simps) (simp split: outcome.split)

lemma distance_sqrt:
  "distance p r = sqrt ((pos_x p - pos_x (position r))\<^sup>2 + (pos_y p - pos_y (position r))\<^sup>2)"
  by (simp add: distance_def Let_def power2_eq_square)

text \<open>
  C1. For every plane position \<open>p\<close> and ring \<open>r\<close>, with \<open>d\<close> the distance of the two in
  the x-y plane: the ring is scored if \<open>d < innerRadius\<close>, crashed into if
  \<open>innerRadius \<le> d \<le> outerRadius\<close> and missed if \<open>d > outerRadius\<close>, where the two radii
  are the major radius minus and plus the tube radius. Exactly one of the three
  conditions holds; at \<open>d = innerRadius\<close> and at \<open>d = outerRadius\<close> the outcome is a
  crash, so a score needs the strict inequality. The last conjunct says what the three
  outcomes are in \<^verbatim>\<open>checkRings\<close>, for a ring \<open>i\<close> that it processes.
\<close>

theorem judge_by_distance:
  "distance p r = sqrt ((pos_x p - pos_x (position r))\<^sup>2 + (pos_y p - pos_y (position r))\<^sup>2) \<and>
   innerRadius = ringMajorRadius - ringTubeRadius \<and>
   outerRadius = ringMajorRadius + ringTubeRadius \<and>
   (distance p r < innerRadius \<longrightarrow> judge (distance p r) = Scored) \<and>
   (innerRadius \<le> distance p r \<and> distance p r \<le> outerRadius \<longrightarrow>
      judge (distance p r) = Crashed) \<and>
   (outerRadius < distance p r \<longrightarrow> judge (distance p r) = Missed) \<and>
   (distance p r < innerRadius \<and>
      \<not> (innerRadius \<le> distance p r \<and> distance p r \<le> outerRadius) \<and>
      \<not> outerRadius < distance p r \<or>
    \<not> distance p r < innerRadius \<and>
      (innerRadius \<le> distance p r \<and> distance p r \<le> outerRadius) \<and>
      \<not> outerRadius < distance p r \<or>
    \<not> distance p r < innerRadius \<and>
      \<not> (innerRadius \<le> distance p r \<and> distance p r \<le> outerRadius) \<and>
      outerRadius < distance p r) \<and>
   (distance p r = innerRadius \<or> distance p r = outerRadius \<longrightarrow>
      judge (distance p r) = Crashed) \<and>
   (judge (distance p r) = Scored \<longrightarrow> distance p r < innerRadius) \<and>
   (i < length (rings s) \<and> passed (plane s) (rings s ! i) \<and> p = plane s \<and> r = rings s ! i \<longrightarrow>
      checkRingsFrom i s =
        (case judge (distance p r) of
           Scored \<Rightarrow> checkRingsFrom (Suc i)
                       (s\<lparr>rings := (rings s)[i := r\<lparr>checked := True\<rparr>], score := score s + 1\<rparr>)
         | Crashed \<Rightarrow> s\<lparr>rings := (rings s)[i := r\<lparr>checked := True\<rparr>], crashed := True\<rparr>
         | Missed \<Rightarrow> checkRingsFrom (Suc i) (s\<lparr>rings := (rings s)[i := r\<lparr>checked := True\<rparr>]\<rparr>)))"
proof -
  have "innerRadius \<le> outerRadius"
    by (simp add: radii)
  then show ?thesis
    using distance_sqrt [of p r]
    by (auto simp add: judge_iff checkRingsFrom_passed innerRadius_def outerRadius_def)
qed

text \<open>
  The plane crosses the first ring at distance 5, 8 and 9 from its centre: scored,
  crashed, missed.
\<close>

theorem judge_by_distance_witness:
  "distance (plane (crossing 5)) (rings (crossing 5) ! 0) = 5 \<and> 5 < innerRadius \<and>
   judge (distance (plane (crossing 5)) (rings (crossing 5) ! 0)) = Scored \<and>
   distance (plane (crossing 8)) (rings (crossing 8) ! 0) = 8 \<and>
   innerRadius \<le> 8 \<and> 8 \<le> outerRadius \<and>
   judge (distance (plane (crossing 8)) (rings (crossing 8) ! 0)) = Crashed \<and>
   distance (plane (crossing 9)) (rings (crossing 9) ! 0) = 9 \<and> outerRadius < 9 \<and>
   judge (distance (plane (crossing 9)) (rings (crossing 9) ! 0)) = Missed \<and>
   0 < length (rings (crossing 8)) \<and> passed (plane (crossing 8)) (rings (crossing 8) ! 0) \<and>
   checkRingsFrom 0 (crossing 8) =
     (crossing 8)\<lparr>rings := (rings (crossing 8))[0 := (rings (crossing 8) ! 0)\<lparr>checked := True\<rparr>],
                  crashed := True\<rparr>"
  using judge_by_distance [of "plane (crossing 5)" "rings (crossing 5) ! 0" 0 "crossing 5"]
    judge_by_distance [of "plane (crossing 8)" "rings (crossing 8) ! 0" 0 "crossing 8"]
    judge_by_distance [of "plane (crossing 9)" "rings (crossing 9) ! 0" 0 "crossing 9"]
  by (simp add: twoRings_eq radii passed_def distance_def Let_def)

subsection \<open>Restart\<close>

lemma handle_restarts: "restarts e \<Longrightarrow> handle pads e s = Some (restartGame s)"
  by (cases e) simp_all

lemma restartGame_simps [simp]:
  "plane (restartGame s) = \<lparr> pos_x = 0, pos_y = 0, pos_z = 500 \<rparr>"
  "rings (restartGame s) = map (\<lambda>r. r\<lparr>checked := False\<rparr>) (rings s)"
  "\<not> gameStarted (restartGame s)" "\<not> crashed (restartGame s)" "score (restartGame s) = 0"
  "pitch (restartGame s) = pitch s" "gamepadIndex (restartGame s) = gamepadIndex s"
  by (simp_all add: restartGame_def)

lemma wrecked_simps [simp]:
  "plane wrecked = \<lparr> pos_x = 0, pos_y = 8, pos_z = 100 \<rparr>"
  "rings wrecked = map (\<lambda>r. r\<lparr>checked := True\<rparr>) twoRings"
  "gameStarted wrecked" "crashed wrecked" "score wrecked = 1"
  "pitch wrecked = 1 / 5" "gamepadIndex wrecked = Some 0"
  by (simp_all add: wrecked_def)

text \<open>
  C2. From any state, \<^verbatim>\<open>restartGame\<close> leaves the game idle with score 0, every ring
  unchecked (and as many rings as before) and the plane at the position it has when the
  script is loaded, (0, 0, 500). The \<^verbatim>\<open>keydown\<close> listener calls it on the space bar
  whatever the state.
\<close>

theorem restartGame_resets:
  "idle (restartGame s) \<and> score (restartGame s) = 0 \<and>
   (\<forall>r \<in> set (rings (restartGame s)). \<not> checked r) \<and>
   length (rings (restartGame s)) = length (rings s) \<and>
   plane (restartGame s) = plane initialGame \<and>
   plane initialGame = \<lparr> pos_x = 0, pos_y = 0, pos_z = 500 \<rparr> \<and>
   (restarts e \<longrightarrow> handle pads e s = Some (restartGame s))"
  by (auto simp add: idle_def initialGame_def handle_restarts)

text \<open>Restarting the crashed game \<open>wrecked\<close> with the space bar.\<close>

theorem restartGame_resets_witness:
  "crashed wrecked \<and> score wrecked = 1 \<and> map checked (rings wrecked) = [True, True] \<and>
   restarts (KeyDown '' '' ''Space'') \<and>
   handle noPads (KeyDown '' '' ''Space'') wrecked = Some (restartGame wrecked) \<and>
   idle (restartGame wrecked) \<and> score (restartGame wrecked) = 0 \<and>
   map checked (rings (restartGame wrecked)) = [False, False] \<and>
   plane (restartGame wrecked) = \<lparr> pos_x = 0, pos_y = 0, pos_z = 500 \<rparr>"
  using restartGame_resets [of wrecked "KeyDown '' '' ''Space''" noPads]
  by (simp add: twoRings_eq initialGame_def idle_def)

subsection \<open>The rings that are created\<close>

lemma createRings_eq:
  "createRings = map (\<lambda>i. newRing i 150 8 (7 / 10)) [0, 1, 2, 3, 4, 5, 6, 7, 8, 9]"
  by (simp add: createRings_def numRings_def pushRings.simps ringSpacing_def ringMajorRadius_def
      ringTubeRadius_def)

lemma set_pushRings:
  "set (pushRings i n spacing major minor) = (\<lambda>j. newRing j spacing major minor) ` {i..<n}"
proof (induction i n spacing major minor rule: pushRings.induct)
  case (1 i n spacing major minor)
  show ?case
  proof (cases "i < n")
    case True
    then have "{i..<n} = insert i {i + 1..<n}"
      by auto
    with True "1.IH" show ?thesis
      by (subst pushRings.simps) simp
  next
    case False
    then show ?thesis
      by (subst pushRings.simps) simp
  qed
qed

lemma length_pushRings: "length (pushRings i n spacing major minor) = nat (n - i)"
proof (induction i n spacing major minor rule: pushRings.induct)
  case (1 i n spacing major minor)
  show ?case
  proof (cases "i < n")
    case True
    then have "Suc (nat (n - (i + 1))) = nat (n - i)"
      by arith
    with True "1.IH" show ?thesis
      by (subst pushRings.simps) simp
  next
    case False
    then show ?thesis
      by (subst pushRings.simps) simp
  qed
qed

lemma createRings_ring:
  assumes "r \<in> set createRings"
  shows "pos_x (position r) = 0" "pos_z (position r) \<le> 300" "\<not> checked r"
    "radius r = ringMajorRadius" "tube r = ringTubeRadius"
  using assms
  by (auto simp add: createRings_def set_pushRings newRing_def ringSpacing_def)

subsection \<open>What an event does\<close>

lemma checkRings_none:
  assumes "\<forall>r \<in> set (rings s). \<not> passed (plane s) r"
  shows "checkRings s = s"
proof -
  have "takeWhile (\<lambda>r. \<not> hits (plane s) r) (rings s) = rings s"
    using assms by (simp add: hits_def)
  then have "firstHit (plane s) (rings s) = length (rings s)"
    by (simp only: firstHit_def)
  moreover have "map (process (plane s)) (rings s) = rings s"
    using assms by (simp add: process_def map_idI)
  moreover have "filter (scores (plane s)) (rings s) = []"
    using assms by (simp add: scores_def)
  ultimately show ?thesis
    by (simp add: checkRings_def checkRingsFrom_closed)
qed

lemma animate_tick:
  assumes "animate pads s = Some s'" "running s"
  obtains p where "updateGamepadInput pads s = Some (s\<lparr>pitch := p\<rparr>)"
    "s' = checkRings (s\<lparr>pitch := p,
                        plane := (plane s)\<lparr>pos_z := pos_z (plane s) - speed,
                                          pos_y := pos_y (plane s) - p\<rparr>\<rparr>)"
proof -
  from assms obtain s1 where s1: "updateGamepadInput pads s = Some s1"
    and s': "s' = checkRings (s1\<lparr>plane := (plane s1)\<lparr>pos_z := pos_z (plane s1) - speed,
                                              pos_y := pos_y (plane s1) - pitch s1\<rparr>\<rparr>)"
    by (auto elim: animate_cases)
  from s1 have eq: "s1 = s\<lparr>pitch := pitch s1\<rparr>"
    by (rule updateGamepadInput_pitch)
  show thesis
  proof (rule that [of "pitch s1"])
    show "updateGamepadInput pads s = Some (s\<lparr>pitch := pitch s1\<rparr>)"
      using s1 eq by simp
    show "s' = checkRings (s\<lparr>pitch := pitch s1,
                        plane := (plane s)\<lparr>pos_z := pos_z (plane s) - speed,
                                          pos_y := pos_y (plane s) - pitch s1\<rparr>\<rparr>)"
      by (subst s', subst (1 2 3 4) eq) simp
  qed
qed

lemma handle_cases:
  assumes "handle pads e s = Some s'"
  obtains (restart) "restarts e" "s' = restartGame s"
  | (pad) g where "\<not> restarts e" "s' = s\<lparr>gamepadIndex := g\<rparr>"
  | (tick) g p where "\<not> restarts e" "\<not> crashed s"
      "s' = checkRings (s\<lparr>gamepadIndex := g, gameStarted := True, pitch := p,
                           plane := (plane s)\<lparr>pos_z := pos_z (plane s) - speed,
                                             pos_y := pos_y (plane s) - p\<rparr>\<rparr>)"
proof (cases e)
  case (KeyDown key code)
  show ?thesis
  proof (cases "restarts e")
    case True
    with assms restart show ?thesis
      by (simp add: handle_restarts)
  next
    case nr: False
    show ?thesis
    proof (cases "idle s")
      case True
      with assms KeyDown nr
      have a: "animate pads (s\<lparr>gameStarted := True\<rparr>) = Some s'"
        by (simp add: idle_def startGame_def)
      have "running (s\<lparr>gameStarted := True\<rparr>)"
        using True by (simp add: idle_def running_def)
      with a obtain p where
        "s' = checkRings (s\<lparr>gameStarted := True, pitch := p,
                        plane := (plane s)\<lparr>pos_z := pos_z (plane s) - speed,
                                          pos_y := pos_y (plane s) - p\<rparr>\<rparr>)"
        by (auto elim!: animate_tick)
      then have "s' = checkRings (s\<lparr>gamepadIndex := gamepadIndex s, gameStarted := True, pitch := p,
                        plane := (plane s)\<lparr>pos_z := pos_z (plane s) - speed,
                                          pos_y := pos_y (plane s) - p\<rparr>\<rparr>)"
        by simp
      with nr True show ?thesis
        by (intro tick [where g = "gamepadIndex s" and p = p]) (simp_all add: idle_def)
    next
      case False
      with assms KeyDown nr have "s' = s\<lparr>gamepadIndex := gamepadIndex s\<rparr>"
        by (auto simp add: idle_def)
      with nr show ?thesis
        by (rule pad)
    qed
  qed
next
  case (GamepadConnected idx)
  then have nr: "\<not> restarts e"
    by simp
  show ?thesis
  proof (cases "idle s")
    case True
    with assms GamepadConnected
    have a: "animate pads (s\<lparr>gamepadIndex := Some idx, gameStarted := True\<rparr>) = Some s'"
      by (simp add: idle_def startGame_def)
    have "running (s\<lparr>gamepadIndex := Some idx, gameStarted := True\<rparr>)"
      using True by (simp add: idle_def running_def)
    with a obtain p where
      "s' = checkRings (s\<lparr>gamepadIndex := Some idx, gameStarted := True, pitch := p,
                      plane := (plane s)\<lparr>pos_z := pos_z (plane s) - speed,
                                        pos_y := pos_y (plane s) - p\<rparr>\<rparr>)"
      by (auto elim!: animate_tick)
    with nr True show ?thesis
      by (intro tick [where g = "Some idx" and p = p]) (simp_all add: idle_def)
  next
    case False
    with assms GamepadConnected have "s' = s\<lparr>gamepadIndex := Some idx\<rparr>"
      by (auto simp add: idle_def)
    with nr show ?thesis
      by (rule pad)
  qed
next
  case GamepadDisconnected
  with assms have "\<not> restarts e" "s' = s\<lparr>gamepadIndex := None\<rparr>"
    by auto
  then show ?thesis
    by (rule pad)
next
  case AnimationFrame
  then have nr: "\<not> restarts e"
    by simp
  from assms AnimationFrame have a: "animate pads s = Some s'"
    by simp
  show ?thesis
  proof (cases "running s")
    case True
    with a obtain p where
      "s' = checkRings (s\<lparr>pitch := p,
                      plane := (plane s)\<lparr>pos_z := pos_z (plane s) - speed,
                                        pos_y := pos_y (plane s) - p\<rparr>\<rparr>)"
      by (auto elim!: animate_tick)
    moreover have "s\<lparr>gamepadIndex := gamepadIndex s, gameStarted := True\<rparr> = s"
      using True by (simp add: running_def)
    ultimately have "s' = checkRings (s\<lparr>gamepadIndex := gamepadIndex s, gameStarted := True, pitch := p,
                      plane := (plane s)\<lparr>pos_z := pos_z (plane s) - speed,
                                        pos_y := pos_y (plane s) - p\<rparr>\<rparr>)"
      by simp
    with nr True show ?thesis
      by (intro tick [where g = "gamepadIndex s" and p = p]) (simp_all add: running_def)
  next
    case False
    with a have "s' = s\<lparr>gamepadIndex := gamepadIndex s\<rparr>"
      by (auto simp add: animate_def running_def)
    with nr show ?thesis
      by (rule pad)
  qed
qed

lemma updateGamepadInput_readable:
  "readable pads s \<Longrightarrow> \<exists>s1. updateGamepadInput pads s = Some s1"
  by (auto simp add: readable_def updateGamepadInput_def split: option.splits)

lemma updateGamepadInput_fields:
  assumes "updateGamepadInput pads s = Some s1"
  shows "plane s1 = plane s" "rings s1 = rings s" "gameStarted s1 = gameStarted s"
    "crashed s1 = crashed s" "score s1 = score s" "gamepadIndex s1 = gamepadIndex s"
  using assms by (auto simp add: updateGamepadInput_def split: option.splits if_splits)

subsection \<open>Reachable states\<close>

lemma set_checkRings:
  "set (rings (checkRings s)) \<subseteq> set (rings s) \<union> process (plane s) ` set (rings s)"
proof -
  have "set (take n (rings s)) \<subseteq> set (rings s)" "set (drop n (rings s)) \<subseteq> set (rings s)" for n
    by (simp_all add: set_take_subset set_drop_subset)
  then show ?thesis
    unfolding checkRings_rings set_append set_map by blast
qed

lemma ring_x_checkRings:
  assumes "\<forall>r \<in> set (rings s). pos_x (position r) = 0" "r \<in> set (rings (checkRings s))"
  shows "pos_x (position r) = 0"
  using assms set_checkRings [of s] by auto

lemma reachable_invariant:
  assumes "reachable s"
  shows "pos_x (plane s) = 0 \<and> (\<forall>r \<in> set (rings s). pos_x (position r) = 0) \<and>
         (crashed s \<longrightarrow> gameStarted s)"
  using assms
proof (induction rule: reachable.induct)
  case initial
  show ?case
    by (simp add: initialGame_def createRings_ring)
next
  case (event s pads e s')
  from event.hyps(2) show ?case
  proof (cases rule: handle_cases)
    case restart
    with event.IH show ?thesis
      by simp
  next
    case (pad g)
    with event.IH show ?thesis
      by simp
  next
    case (tick g p)
    with event.IH show ?thesis
      by (auto dest!: ring_x_checkRings [rotated])
  qed
qed

lemma distance_abs:
  "pos_x p = pos_x (position r) \<Longrightarrow> distance p r = \<bar>pos_y p - pos_y (position r)\<bar>"
  by (simp add: distance_def)

lemma initialGame_simps [simp]:
  "plane initialGame = \<lparr> pos_x = 0, pos_y = 0, pos_z = 500 \<rparr>"
  "rings initialGame = createRings"
  "\<not> gameStarted initialGame" "\<not> crashed initialGame" "score initialGame = 0"
  "pitch initialGame = 0" "gamepadIndex initialGame = None"
  by (simp_all add: initialGame_def)

lemma speed_eq: "speed = 5 / 3"
  by (simp add: speed_def)

lemma connect_initialGame: "handle onePad (GamepadConnected 0) initialGame = Some diving"
proof -
  let ?s = "initialGame\<lparr>gamepadIndex := Some 0, gameStarted := True, pitch := 1 / 5,
                 plane := \<lparr> pos_x = 0, pos_y = - (1 / 5), pos_z = 500 - speed \<rparr>\<rparr>"
  have "\<forall>r \<in> set (rings ?s). \<not> passed (plane ?s) r"
    using createRings_ring(2) by (fastforce simp add: passed_def speed_eq)
  then have "checkRings ?s = ?s"
    by (rule checkRings_none)
  then show ?thesis
    by (simp add: startGame_def animate_def updateGamepadInput_def onePad_def stickDown_def
        diving_def)
qed

lemma reachable_diving: "reachable diving"
  using reachable.initial connect_initialGame by (rule reachable.event)

lemma handle_pos_x:
  assumes "reachable s" "handle pads e s = Some s'"
  shows "pos_x (plane s') = pos_x (plane s)"
  using assms(2)
proof (cases rule: handle_cases)
  case restart
  then show ?thesis
    using reachable_invariant [OF assms(1)] by simp
qed simp_all

lemma diving_simps [simp]:
  "plane diving = \<lparr> pos_x = 0, pos_y = - (1 / 5), pos_z = 500 - speed \<rparr>"
  "rings diving = createRings"
  "gameStarted diving" "\<not> crashed diving" "score diving = 0"
  "pitch diving = 1 / 5" "gamepadIndex diving = Some 0"
  by (simp_all add: diving_def)

lemma createRings_not_passed:
  assumes "300 \<le> pos_z p"
  shows "\<forall>r \<in> set createRings. \<not> passed p r"
  using assms createRings_ring(2) by (fastforce simp add: passed_def)

lemma frame_diving:
  "animate onePad diving =
     Some (diving\<lparr>plane := \<lparr> pos_x = 0, pos_y = - (2 / 5), pos_z = 500 - speed - speed \<rparr>\<rparr>)"
proof -
  let ?s = "diving\<lparr>pitch := 1 / 5,
      plane := \<lparr> pos_x = 0, pos_y = - (2 / 5), pos_z = 500 - speed - speed \<rparr>\<rparr>"
  have "\<forall>r \<in> set (rings ?s). \<not> passed (plane ?s) r"
    by (simp add: createRings_not_passed speed_eq)
  then have "checkRings ?s = ?s"
    by (rule checkRings_none)
  moreover have "?s =
      diving\<lparr>plane := \<lparr> pos_x = 0, pos_y = - (2 / 5), pos_z = 500 - speed - speed \<rparr>\<rparr>"
    by (simp add: diving_def)
  ultimately show ?thesis
    by (simp add: animate_def updateGamepadInput_def onePad_def stickDown_def)
qed

lemma reachable_crashed: "reachable s \<Longrightarrow> crashed s \<Longrightarrow> gameStarted s"
  using reachable_invariant [of s] by simp

subsection \<open>The lateral coordinate\<close>

text \<open>
  C10. In every reachable state the x coordinate of the plane is 0 and so is that of
  every ring; hence the distance that \<^verbatim>\<open>checkRings\<close> computes between the plane and a
  ring is the absolute difference of their y coordinates.
\<close>

theorem lateral_coordinate_zero:
  "reachable s \<Longrightarrow>
   pos_x (plane s) = 0 \<and>
   (\<forall>r \<in> set (rings s).
      pos_x (position r) = 0 \<and> distance (plane s) r = \<bar>pos_y (plane s) - pos_y (position r)\<bar>)"
  using reachable_invariant [of s] by (simp add: distance_abs)

text \<open>The game \<open>diving\<close> and its second ring, at height 6.\<close>

theorem lateral_coordinate_zero_witness:
  "reachable diving \<and> pos_x (plane diving) = 0 \<and> pos_y (plane diving) = - (1 / 5) \<and>
   rings diving ! 1 = newRing 1 150 8 (7 / 10) \<and>
   pos_x (position (rings diving ! 1)) = 0 \<and> pos_y (position (rings diving ! 1)) = 6 \<and>
   distance (plane diving) (rings diving ! 1) = 31 / 5"
proof -
  have "rings diving ! 1 \<in> set (rings diving)"
    by (simp add: diving_def createRings_eq)
  with lateral_coordinate_zero [OF reachable_diving] reachable_diving show ?thesis
    by (simp add: diving_def createRings_eq newRing_def level2Altitude_def)
qed

subsection \<open>Motion of the plane\<close>

text \<open>
  C5. A call of \<^verbatim>\<open>animate\<close> in a running game returns (when the pad it reads, if any, has
  a fourth axis) and takes exactly \<open>speed\<close> from the z coordinate of the plane and the
  current pitch, the one that \<^verbatim>\<open>updateGamepadInput\<close> has just stored or left, from its y
  coordinate: a positive pitch moves the plane down. \<^verbatim>\<open>animate\<close> never changes the x
  coordinate, and from a reachable state no event does.
\<close>

theorem animate_moves_plane:
  "(running s \<and> readable pads s \<longrightarrow>
      (\<exists>s1 s'. updateGamepadInput pads s = Some s1 \<and> animate pads s = Some s' \<and>
         pitch s' = pitch s1 \<and>
         pos_z (plane s') = pos_z (plane s) - speed \<and>
         pos_y (plane s') = pos_y (plane s) - pitch s1 \<and>
         pos_x (plane s') = pos_x (plane s))) \<and>
   (running s \<and> animate pads s = Some t \<longrightarrow>
      pos_z (plane t) = pos_z (plane s) - speed \<and>
      pos_y (plane t) = pos_y (plane s) - pitch t \<and>
      (0 < pitch t \<longrightarrow> pos_y (plane t) < pos_y (plane s))) \<and>
   (animate pads s = Some t \<longrightarrow> pos_x (plane t) = pos_x (plane s)) \<and>
   (reachable s \<and> handle pads e s = Some u \<longrightarrow> pos_x (plane u) = pos_x (plane s)) \<and>
   speed = 100 / 60"
proof (intro conjI impI)
  assume "running s \<and> readable pads s"
  then obtain s1 where "running s" "updateGamepadInput pads s = Some s1"
    using updateGamepadInput_readable by blast
  then show "\<exists>s1 s'. updateGamepadInput pads s = Some s1 \<and> animate pads s = Some s' \<and>
         pitch s' = pitch s1 \<and>
         pos_z (plane s') = pos_z (plane s) - speed \<and>
         pos_y (plane s') = pos_y (plane s) - pitch s1 \<and>
         pos_x (plane s') = pos_x (plane s)"
    by (simp add: animate_def running_def updateGamepadInput_fields)
next
  assume a: "running s \<and> animate pads s = Some t"
  then show "pos_z (plane t) = pos_z (plane s) - speed"
    by (auto elim!: animate_tick)
  from a show y: "pos_y (plane t) = pos_y (plane s) - pitch t"
    by (auto elim!: animate_tick)
  show "pos_y (plane t) < pos_y (plane s)" if "0 < pitch t"
    using that y by simp
next
  assume a: "animate pads s = Some t"
  show "pos_x (plane t) = pos_x (plane s)"
  proof (cases "running s")
    case True
    with a show ?thesis
      by (auto elim!: animate_tick)
  next
    case False
    with a show ?thesis
      by (auto simp add: animate_def running_def)
  qed
next
  assume "reachable s \<and> handle pads e s = Some u"
  then show "pos_x (plane u) = pos_x (plane s)"
    using handle_pos_x [of s pads e u] by blast
next
  show "speed = 100 / 60"
    by (simp add: speed_def)
qed

text \<open>One frame of the game \<open>diving\<close>, its pad still connected.\<close>

theorem animate_moves_plane_witness:
  "running diving \<and> readable onePad diving \<and> reachable diving \<and>
   handle onePad AnimationFrame diving =
     Some (diving\<lparr>plane := \<lparr> pos_x = 0, pos_y = - (2 / 5), pos_z = 500 - speed - speed \<rparr>\<rparr>) \<and>
   pos_y (plane diving) = - (1 / 5) \<and> pitch diving = 1 / 5 \<and> pos_x (plane diving) = 0"
  using animate_moves_plane [of diving onePad
      "diving\<lparr>plane := \<lparr> pos_x = 0, pos_y = - (2 / 5), pos_z = 500 - speed - speed \<rparr>\<rparr>"
      AnimationFrame
      "diving\<lparr>plane := \<lparr> pos_x = 0, pos_y = - (2 / 5), pos_z = 500 - speed - speed \<rparr>\<rparr>"]
    reachable_diving frame_diving
  by (simp add: running_def readable_def onePad_def stickDown_def)

subsection \<open>Pitch without a gamepad\<close>

lemma animate_far:
  assumes "running s" "rings s = createRings" "300 \<le> pos_z (plane s) - speed"
  shows "animate pads s =
     map_option (\<lambda>s1. s1\<lparr>plane := (plane s1)\<lparr>pos_z := pos_z (plane s1) - speed,
                                                pos_y := pos_y (plane s1) - pitch s1\<rparr>\<rparr>)
       (updateGamepadInput pads s)"
proof (cases "updateGamepadInput pads s")
  case None
  with assms(1) show ?thesis
    by (simp add: animate_def running_def)
next
  case (Some s1)
  let ?t = "s1\<lparr>plane := (plane s1)\<lparr>pos_z := pos_z (plane s1) - speed,
                                      pos_y := pos_y (plane s1) - pitch s1\<rparr>\<rparr>"
  have "\<forall>r \<in> set (rings ?t). \<not> passed (plane ?t) r"
    using assms(2,3) updateGamepadInput_fields [OF Some]
    by (simp add: createRings_not_passed)
  then have "checkRings ?t = ?t"
    by (rule checkRings_none)
  with assms(1) Some show ?thesis
    by (simp add: animate_def running_def)
qed

lemma updateGamepadInput_noDevice: "noDevice pads s \<Longrightarrow> updateGamepadInput pads s = Some s"
  by (auto simp add: noDevice_def updateGamepadInput_def split: option.splits)

lemma handle_noPads_pitch:
  assumes "\<forall>i. pads i = None" "handle pads e s = Some s'"
  shows "pitch s' = pitch s"
proof -
  have u: "updateGamepadInput pads t = Some t" for t
    using assms(1) by (simp add: updateGamepadInput_noDevice noDevice_def split: option.splits)
  have a: "pitch t' = pitch t" if "animate pads t = Some t'" for t t'
    using that u [of t] by (auto simp add: animate_def split: if_splits)
  have st: "pitch t' = pitch t" if "startGame pads t = Some t'" for t t'
    using that a [of "t\<lparr>gameStarted := True\<rparr>" t'] by (auto simp add: startGame_def split: if_splits)
  show ?thesis
  proof (cases e)
    case (KeyDown key code)
    with assms(2) st [of s s'] show ?thesis
      by (auto split: if_splits)
  next
    case (GamepadConnected idx)
    with assms(2) st [of "s\<lparr>gamepadIndex := Some idx\<rparr>" s'] show ?thesis
      by (auto split: if_splits)
  next
    case GamepadDisconnected
    with assms(2) show ?thesis
      by auto
  next
    case AnimationFrame
    with assms(2) a [of s s'] show ?thesis
      by simp
  qed
qed

lemma run_noPads_pitch:
  assumes "\<forall>pe \<in> set tr. \<forall>i. fst pe i = None" "run tr s = Some t"
  shows "pitch t = pitch s"
  using assms
proof (induction tr arbitrary: s)
  case Nil
  then show ?case
    by simp
next
  case (Cons pe tr)
  obtain pads e where pe: "pe = (pads, e)"
    by (cases pe)
  with Cons.prems(2) obtain s1 where h: "handle pads e s = Some s1" and r: "run tr s1 = Some t"
    by (auto split: option.splits)
  from Cons.prems(1) pe h have "pitch s1 = pitch s"
    by (auto intro: handle_noPads_pitch)
  moreover from Cons.IH [OF _ r] Cons.prems(1) have "pitch t = pitch s1"
    by simp
  ultimately show ?case
    by simp
qed

text \<open>
  C3 as claimed (without an input device the next frame uses pitch 0) fails: a pad with
  its stick down is connected, which starts the game and stores the pitch 1/5; the pad
  is disconnected; in the next frame, without any device, the stored pitch is still 1/5
  and y goes from -1/5 to -2/5.
\<close>

theorem pitch_without_device_counterexample:
  "run [(onePad, GamepadConnected 0), (noPads, GamepadDisconnected), (noPads, AnimationFrame)]
     initialGame =
     Some (diving\<lparr>gamepadIndex := None,
                  plane := \<lparr> pos_x = 0, pos_y = - (2 / 5), pos_z = 500 - speed - speed \<rparr>\<rparr>) \<and>
   handle noPads GamepadDisconnected diving = Some (diving\<lparr>gamepadIndex := None\<rparr>) \<and>
   noDevice noPads (diving\<lparr>gamepadIndex := None\<rparr>) \<and>
   pos_y (plane (diving\<lparr>gamepadIndex := None\<rparr>)) = - (1 / 5) \<and>
   pitch (diving\<lparr>gamepadIndex := None,
                 plane := \<lparr> pos_x = 0, pos_y = - (2 / 5), pos_z = 500 - speed - speed \<rparr>\<rparr>) = 1 / 5 \<and>
   (1 / 5 :: real) \<noteq> 0"
proof -
  have h2: "handle noPads GamepadDisconnected diving = Some (diving\<lparr>gamepadIndex := None\<rparr>)"
    by simp
  have h3: "handle noPads AnimationFrame (diving\<lparr>gamepadIndex := None\<rparr>) =
      Some (diving\<lparr>gamepadIndex := None,
                  plane := \<lparr> pos_x = 0, pos_y = - (2 / 5), pos_z = 500 - speed - speed \<rparr>\<rparr>)"
    by (simp add: animate_far running_def speed_eq updateGamepadInput_def)
  have "run [(onePad, GamepadConnected 0), (noPads, GamepadDisconnected), (noPads, AnimationFrame)]
     initialGame =
     Some (diving\<lparr>gamepadIndex := None,
                  plane := \<lparr> pos_x = 0, pos_y = - (2 / 5), pos_z = 500 - speed - speed \<rparr>\<rparr>)"
    by (simp only: run.simps connect_initialGame h2 h3 option.case)
  with h2 show ?thesis
    by (simp add: noDevice_def)
qed

text \<open>
  C3, amended. Without an input device \<^verbatim>\<open>updateGamepadInput\<close> changes nothing: a frame
  of a running game uses the pitch that is stored, the one of the last frame that read a
  device, and leaves it stored. The pitch is a variable of the module: a disconnect and
  a restart leave it as it is. It is 0 when the script is loaded and stays 0 as long as
  the browser reports no gamepad.
\<close>

theorem pitch_without_device:
  "(noDevice pads s \<longrightarrow> updateGamepadInput pads s = Some s) \<and>
   (noDevice pads s \<and> running s \<longrightarrow>
      (\<exists>s'. animate pads s = Some s' \<and> pitch s' = pitch s \<and>
            pos_y (plane s') = pos_y (plane s) - pitch s)) \<and>
   (handle pads GamepadDisconnected s = Some t \<longrightarrow>
      pitch t = pitch s \<and> gamepadIndex t = None \<and> noDevice pads' t) \<and>
   pitch (restartGame s) = pitch s \<and>
   pitch initialGame = 0 \<and>
   ((\<forall>pe \<in> set tr. \<forall>i. fst pe i = None) \<and> run tr initialGame = Some u \<longrightarrow> pitch u = 0)"
proof -
  have "\<exists>s'. animate pads s = Some s' \<and> pitch s' = pitch s \<and>
            pos_y (plane s') = pos_y (plane s) - pitch s"
    if "noDevice pads s" "running s"
    using that by (simp add: animate_def running_def updateGamepadInput_noDevice)
  moreover have "pitch u = 0" if "\<forall>pe \<in> set tr. \<forall>i. fst pe i = None" "run tr initialGame = Some u"
    using run_noPads_pitch [OF that] by simp
  ultimately show ?thesis
    by (auto simp add: updateGamepadInput_noDevice noDevice_def)
qed

text \<open>
  A frame of the game \<open>diving\<close> after its pad has gone, and a game that never had one.
\<close>

theorem pitch_without_device_witness:
  "noDevice noPads (diving\<lparr>gamepadIndex := None\<rparr>) \<and> running (diving\<lparr>gamepadIndex := None\<rparr>) \<and>
   pitch (diving\<lparr>gamepadIndex := None\<rparr>) = 1 / 5 \<and>
   animate noPads (diving\<lparr>gamepadIndex := None\<rparr>) =
     Some (diving\<lparr>gamepadIndex := None,
                  plane := \<lparr> pos_x = 0, pos_y = - (2 / 5), pos_z = 500 - speed - speed \<rparr>\<rparr>) \<and>
   handle noPads GamepadDisconnected diving = Some (diving\<lparr>gamepadIndex := None\<rparr>) \<and>
   run [(noPads, KeyDown ''a'' ''KeyA''), (noPads, AnimationFrame)] initialGame =
     Some (initialGame\<lparr>gameStarted := True,
                       plane := \<lparr> pos_x = 0, pos_y = 0, pos_z = 500 - speed - speed \<rparr>\<rparr>) \<and>
   pitch (initialGame\<lparr>gameStarted := True,
                       plane := \<lparr> pos_x = 0, pos_y = 0, pos_z = 500 - speed - speed \<rparr>\<rparr>) = 0"
  using pitch_without_device [of noPads "diving\<lparr>gamepadIndex := None\<rparr>" "diving\<lparr>gamepadIndex := None\<rparr>"
      noPads "[(noPads, KeyDown ''a'' ''KeyA''), (noPads, AnimationFrame)]"
      "initialGame\<lparr>gameStarted := True,
                       plane := \<lparr> pos_x = 0, pos_y = 0, pos_z = 500 - speed - speed \<rparr>\<rparr>"]
  by (simp add: animate_far running_def speed_eq updateGamepadInput_def noDevice_def noPads_def
      startGame_def)

subsection \<open>A game that crashes\<close>

lemma cruise_simps [simp]:
  "plane (cruise n) = \<lparr> pos_x = 0, pos_y = - (real n / 15), pos_z = 500 - real n * speed \<rparr>"
  "rings (cruise n) = createRings"
  "gameStarted (cruise n)" "\<not> crashed (cruise n)" "score (cruise n) = 0"
  "pitch (cruise n) = 1 / 15" "gamepadIndex (cruise n) = Some 0"
  by (simp_all add: cruise_def)

lemma update_cruise: "updateGamepadInput gentlePad (cruise n) = Some (cruise n)"
proof -
  have "(cruise n)\<lparr>pitch := 1 / 15\<rparr> = cruise n"
    by (simp add: cruise_def)
  then show ?thesis
    by (simp add: updateGamepadInput_def gentlePad_def stickThird_def)
qed

lemma connect_gentle: "handle gentlePad (GamepadConnected 0) initialGame = Some (cruise 1)"
proof -
  let ?s = "initialGame\<lparr>gamepadIndex := Some 0, gameStarted := True\<rparr>"
  have "animate gentlePad ?s =
      map_option (\<lambda>s1. s1\<lparr>plane := (plane s1)\<lparr>pos_z := pos_z (plane s1) - speed,
                                                pos_y := pos_y (plane s1) - pitch s1\<rparr>\<rparr>)
        (updateGamepadInput gentlePad ?s)"
    by (rule animate_far) (simp_all add: running_def speed_eq)
  then show ?thesis
    by (simp add: startGame_def updateGamepadInput_def gentlePad_def stickThird_def cruise_def)
qed

lemma frame_cruise:
  assumes "n < 120"
  shows "animate gentlePad (cruise n) = Some (cruise (Suc n))"
proof -
  have "300 \<le> pos_z (plane (cruise n)) - speed"
    using assms by (simp add: speed_eq)
  then have "animate gentlePad (cruise n) =
      map_option (\<lambda>s1. s1\<lparr>plane := (plane s1)\<lparr>pos_z := pos_z (plane s1) - speed,
                                                pos_y := pos_y (plane s1) - pitch s1\<rparr>\<rparr>)
        (updateGamepadInput gentlePad (cruise n))"
    by (intro animate_far) (simp_all add: running_def)
  then show ?thesis
    by (simp add: update_cruise) (simp add: cruise_def field_simps)
qed

lemma reachable_cruise: "n < 120 \<Longrightarrow> reachable (cruise (Suc n))"
proof (induction n)
  case 0
  have "reachable (cruise 1)"
    using reachable.initial connect_gentle by (rule reachable.event)
  then show ?case
    by simp
next
  case (Suc n)
  then have "reachable (cruise (Suc n))"
    by simp
  moreover have "handle gentlePad AnimationFrame (cruise (Suc n)) = Some (cruise (Suc (Suc n)))"
    using Suc.prems by (simp add: frame_cruise)
  ultimately show ?case
    by (rule reachable.event)
qed

lemma hits_cruise_121:
  "hits \<lparr> pos_x = 0, pos_y = - (121 / 15), pos_z = 500 - 121 * speed \<rparr> (newRing 0 150 8 (7 / 10))"
  by (simp add: hits_def passed_def newRing_def distance_abs judge_def radii speed_eq
      level1Altitude_def)

lemma createRings_Cons:
  "createRings = newRing 0 150 8 (7 / 10) # tl createRings"
  by (simp add: createRings_eq)

lemma firstHit_cruise_121:
  "firstHit \<lparr> pos_x = 0, pos_y = - (121 / 15), pos_z = 500 - 121 * speed \<rparr> createRings = 0"
  by (subst createRings_Cons) (simp add: firstHit_def hits_cruise_121)

lemma process_cruise_121:
  "process \<lparr> pos_x = 0, pos_y = - (121 / 15), pos_z = 500 - 121 * speed \<rparr> (newRing 0 150 8 (7 / 10)) =
     (newRing 0 150 8 (7 / 10))\<lparr>checked := True\<rparr>"
  using hits_cruise_121 by (simp add: process_def hits_def)

lemma rings_cruise_121:
  "rings (checkRings ((cruise 120)\<lparr>plane :=
       \<lparr> pos_x = 0, pos_y = - (121 / 15), pos_z = 500 - 121 * speed \<rparr>\<rparr>)) =
     createRings[0 := (createRings ! 0)\<lparr>checked := True\<rparr>]"
proof -
  have "take (Suc 0) createRings = [newRing 0 150 8 (7 / 10)]"
    by (subst createRings_Cons) simp
  moreover have "createRings[0 := (createRings ! 0)\<lparr>checked := True\<rparr>] =
      (newRing 0 150 8 (7 / 10))\<lparr>checked := True\<rparr> # drop (Suc 0) createRings"
    by (subst (1 2 3) createRings_Cons) simp
  ultimately show ?thesis
    by (simp add: checkRings_rings firstHit_cruise_121 process_cruise_121)
qed

lemma length_createRings: "length createRings = 10"
  by (simp add: createRings_def length_pushRings numRings_def)

lemma frame_cruise_120: "animate gentlePad (cruise 120) = Some downed"
proof -
  let ?p = "\<lparr> pos_x = 0, pos_y = - (121 / 15), pos_z = 500 - 121 * speed \<rparr>"
  let ?s = "(cruise 120)\<lparr>plane := ?p\<rparr>"
  have "plane ?s = ?p" "rings ?s = createRings"
    by simp_all
  then have "score (checkRings ?s) = 0" "crashed (checkRings ?s)"
    by (simp_all add: checkRings_score checkRings_crashed firstHit_cruise_121 length_createRings)
  then have "checkRings ?s = downed"
    unfolding downed_def using rings_cruise_121
    by (intro game.equality) (simp_all add: cruise_def)
  moreover have "(cruise 120)\<lparr>plane := (plane (cruise 120))\<lparr>pos_z := pos_z (plane (cruise 120)) - speed,
        pos_y := pos_y (plane (cruise 120)) - pitch (cruise 120)\<rparr>\<rparr> = ?s"
    by (simp add: cruise_def)
  ultimately show ?thesis
    by (simp only: animate_def update_cruise cruise_simps option.case if_False simp_thms)
qed

lemma reachable_downed: "reachable downed"
proof -
  have "reachable (cruise 120)"
    using reachable_cruise [of 119] by simp
  moreover have "handle gentlePad AnimationFrame (cruise 120) = Some downed"
    by (simp add: frame_cruise_120)
  ultimately show ?thesis
    by (rule reachable.event)
qed

lemma downed_simps [simp]:
  "gameStarted downed" "crashed downed" "score downed = 0"
  by (simp_all add: downed_def)

subsection \<open>Calls outside the intended state\<close>

text \<open>
  C7. \<^verbatim>\<open>animate\<close> called while the game is not running (idle or crashed) changes
  nothing, and \<^verbatim>\<open>startGame\<close> called while the game is running or crashed changes nothing;
  nor does a key other than the space bar then. A crashed game that has been reached
  has \<^verbatim>\<open>gameStarted\<close> set, which is what makes \<^verbatim>\<open>startGame\<close> do nothing there.
\<close>

theorem out_of_contract_noops:
  "(\<not> running s \<longrightarrow> animate pads s = Some s \<and> handle pads AnimationFrame s = Some s) \<and>
   (gameStarted s \<longrightarrow> startGame pads s = Some s) \<and>
   (reachable s \<and> (running s \<or> crashed s) \<longrightarrow> startGame pads s = Some s) \<and>
   (reachable s \<and> (running s \<or> crashed s) \<and> \<not> restarts (KeyDown key code) \<longrightarrow>
      handle pads (KeyDown key code) s = Some s)"
proof -
  have "startGame pads s = Some s" if "gameStarted s"
    using that by (simp add: startGame_def)
  moreover have "gameStarted s" if "reachable s" "running s \<or> crashed s"
    using that reachable_crashed [of s] by (auto simp add: running_def)
  moreover have "handle pads (KeyDown key code) s = Some s"
    if "running s \<or> crashed s" "\<not> restarts (KeyDown key code)"
    using that by (auto simp add: running_def)
  ultimately show ?thesis
    by (auto simp add: animate_def running_def)
qed

text \<open>
  A frame in the initial, idle game; a frame, a start and a key in the crashed game
  \<open>downed\<close>, which is reachable; a start and a key in the running game \<open>diving\<close>.
\<close>

theorem out_of_contract_noops_witness:
  "\<not> running initialGame \<and> animate noPads initialGame = Some initialGame \<and>
   reachable downed \<and> crashed downed \<and> \<not> running downed \<and>
   handle gentlePad AnimationFrame downed = Some downed \<and>
   startGame gentlePad downed = Some downed \<and>
   handle gentlePad (KeyDown ''a'' ''KeyA'') downed = Some downed \<and>
   reachable diving \<and> running diving \<and> startGame onePad diving = Some diving \<and>
   \<not> restarts (KeyDown ''a'' ''KeyA'') \<and>
   handle onePad (KeyDown ''a'' ''KeyA'') diving = Some diving"
  using out_of_contract_noops [of initialGame noPads]
    out_of_contract_noops [of downed gentlePad "''a''" "''KeyA''"]
    out_of_contract_noops [of diving onePad "''a''" "''KeyA''"]
    reachable_diving reachable_downed
  by (simp add: running_def)

subsection \<open>Events and the flags of the rings\<close>



lemma handle_length:
  assumes "handle pads e s = Some s'"
  shows "length (rings s') = length (rings s)"
  using assms by (cases rule: handle_cases) simp_all

lemma handle_checked:
  assumes "handle pads e s = Some s'" "\<not> restarts e" "i < length (rings s)"
    "checked (rings s ! i)"
  shows "checked (rings s' ! i)"
  using assms(1)
proof (cases rule: handle_cases)
  case restart
  with assms(2) show ?thesis
    by simp
next
  case (pad g)
  with assms(4) show ?thesis
    by simp
next
  case (tick g p)
  with assms(3,4) show ?thesis
    by (simp add: checked_checkRings)
qed

lemma handle_score:
  assumes "handle pads e s = Some s'" "\<not> restarts e"
  shows "score s \<le> score s'"
  using assms(1)
proof (cases rule: handle_cases)
  case restart
  with assms(2) show ?thesis
    by simp
next
  case (pad g)
  then show ?thesis
    by simp
next
  case (tick g p)
  then show ?thesis
    using score_checkRings_mono
      [of "s\<lparr>gamepadIndex := g, gameStarted := True, pitch := p,
             plane := (plane s)\<lparr>pos_z := pos_z (plane s) - speed,
                               pos_y := pos_y (plane s) - p\<rparr>\<rparr>"]
    by simp
qed

lemma handle_crashed:
  assumes "handle pads e s = Some s'" "\<not> restarts e" "crashed s"
  shows "score s' = score s \<and> crashed s' \<and> rings s' = rings s \<and> plane s' = plane s"
  using assms(1)
proof (cases rule: handle_cases)
  case restart
  with assms(2) show ?thesis
    by simp
next
  case (pad g)
  with assms(3) show ?thesis
    by simp
next
  case (tick g p)
  with assms(3) show ?thesis
    by simp
qed

lemma run_Cons_Some:
  assumes "run (pe # tr) s = Some t"
  obtains s1 where "handle (fst pe) (snd pe) s = Some s1" "run tr s1 = Some t"
  using assms by (cases pe) (auto split: option.splits)

lemma run_checked:
  assumes "run tr s = Some t" "\<forall>pe \<in> set tr. \<not> restarts (snd pe)" "i < length (rings s)"
    "checked (rings s ! i)"
  shows "checked (rings t ! i)"
  using assms
proof (induction tr arbitrary: s)
  case Nil
  then show ?case
    by simp
next
  case (Cons pe tr)
  from Cons.prems(1) obtain s1 where h: "handle (fst pe) (snd pe) s = Some s1"
    and r: "run tr s1 = Some t"
    by (rule run_Cons_Some)
  from h Cons.prems have "checked (rings s1 ! i)" "i < length (rings s1)"
    by (simp_all add: handle_checked handle_length)
  with Cons.IH [OF r] Cons.prems(2) show ?case
    by simp
qed

lemma run_score:
  assumes "run tr s = Some t" "\<forall>pe \<in> set tr. \<not> restarts (snd pe)"
  shows "score s \<le> score t"
  using assms
proof (induction tr arbitrary: s)
  case Nil
  then show ?case
    by simp
next
  case (Cons pe tr)
  from Cons.prems(1) obtain s1 where h: "handle (fst pe) (snd pe) s = Some s1"
    and r: "run tr s1 = Some t"
    by (rule run_Cons_Some)
  from h Cons.prems(2) have "score s \<le> score s1"
    by (simp add: handle_score)
  moreover from Cons.IH [OF r] Cons.prems(2) have "score s1 \<le> score t"
    by simp
  ultimately show ?case
    by simp
qed

lemma flips_run:
  assumes "run tr s = Some t" "\<forall>pe \<in> set tr. \<not> restarts (snd pe)" "i < length (rings s)"
  shows "flips i tr s = (if \<not> checked (rings s ! i) \<and> checked (rings t ! i) then 1 else 0)"
  using assms
proof (induction tr arbitrary: s)
  case Nil
  then show ?case
    by simp
next
  case (Cons pe tr)
  from Cons.prems(1) obtain s1 where h: "handle (fst pe) (snd pe) s = Some s1"
    and r: "run tr s1 = Some t"
    by (rule run_Cons_Some)
  have nr: "\<forall>pe \<in> set tr. \<not> restarts (snd pe)" and nr1: "\<not> restarts (snd pe)"
    using Cons.prems(2) by simp_all
  have len: "i < length (rings s1)"
    using h Cons.prems(3) by (simp add: handle_length)
  have f: "flips i (pe # tr) s =
      (if \<not> checked (rings s ! i) \<and> checked (rings s1 ! i) then 1 else 0) + flips i tr s1"
    using h by (cases pe) simp
  have ih: "flips i tr s1 = (if \<not> checked (rings s1 ! i) \<and> checked (rings t ! i) then 1 else 0)"
    using Cons.IH [OF r nr len] .
  have m1: "checked (rings s ! i) \<Longrightarrow> checked (rings s1 ! i)"
    using h nr1 Cons.prems(3) by (rule handle_checked)
  have m2: "checked (rings s1 ! i) \<Longrightarrow> checked (rings t ! i)"
    using r nr len by (rule run_checked)
  show ?case
    unfolding f ih using m1 m2 by auto
qed

lemma nth_checkRingsFrom:
  assumes "i < length (rings s)"
  shows "rings (checkRingsFrom i s) ! i = process (plane s) (rings s ! i)"
proof -
  have "drop i (rings s) = rings s ! i # drop (Suc i) (rings s)"
    using assms by (simp add: Cons_nth_drop_Suc)
  then show ?thesis
    using assms by (simp add: checkRingsFrom_closed nth_append)
qed


subsection \<open>The example games of two rings\<close>

lemmas crossing_eval = checkRings_rings checkRings_score checkRings_crashed firstHit_def hits_def
  scores_def process_def twoRings_eq passed_def distance_def judge_def radii

lemma frame_crossing_0: "animate noPads (crossing 0) = Some flown"
proof -
  have "checkRings ((crossing 0)\<lparr>plane := \<lparr> pos_x = 0, pos_y = 0, pos_z = 100 - speed \<rparr>\<rparr>) = flown"
    unfolding flown_def by (rule game.equality) (simp_all add: crossing_eval speed_eq)
  then show ?thesis
    by (simp add: animate_def updateGamepadInput_def)
qed

lemma frame_flown:
  "animate noPads flown = Some (flown\<lparr>plane := \<lparr> pos_x = 0, pos_y = 0, pos_z = 100 - speed - speed \<rparr>\<rparr>)"
proof -
  have "checkRings (flown\<lparr>plane := \<lparr> pos_x = 0, pos_y = 0, pos_z = 100 - speed - speed \<rparr>\<rparr>) =
      flown\<lparr>plane := \<lparr> pos_x = 0, pos_y = 0, pos_z = 100 - speed - speed \<rparr>\<rparr>"
    by (rule checkRings_none) (simp add: flown_def passed_def)
  then show ?thesis
    by (simp add: animate_def updateGamepadInput_def flown_def)
qed

lemma frame_crossing_m2: "animate noPads (crossing (- 2)) = Some clipped"
proof -
  have "checkRings ((crossing (- 2))\<lparr>plane := \<lparr> pos_x = 0, pos_y = - 2, pos_z = 100 - speed \<rparr>\<rparr>) =
      clipped"
    unfolding clipped_def by (rule game.equality) (simp_all add: crossing_eval speed_eq)
  then show ?thesis
    by (simp add: animate_def updateGamepadInput_def)
qed

lemma run_crossing_0:
  "run [(noPads, AnimationFrame), (noPads, AnimationFrame)] (crossing 0) =
     Some (flown\<lparr>plane := \<lparr> pos_x = 0, pos_y = 0, pos_z = 100 - speed - speed \<rparr>\<rparr>)"
  by (simp only: run.simps handle.simps frame_crossing_0 frame_flown option.case)

lemma animate_score:
  assumes "animate pads s = Some t" "running s"
  shows "score t = score s + int (length (filter (scores (plane t))
            (take (firstHit (plane t) (rings s)) (rings s))))"
  using assms by (auto elim!: animate_tick simp add: checkRings_score)

lemma clipped_simps [simp]:
  "plane clipped = \<lparr> pos_x = 0, pos_y = - 2, pos_z = 100 - speed \<rparr>"
  "rings clipped = map (\<lambda>r. r\<lparr>checked := True\<rparr>) twoRings"
  "gameStarted clipped" "crashed clipped" "score clipped = 1"
  "pitch clipped = 0" "gamepadIndex clipped = None"
  by (simp_all add: clipped_def)

subsection \<open>The order in which rings are processed\<close>



subsection \<open>The flag of a ring\<close>

lemma animate_checks_passed:
  assumes "running s" "animate pads s = Some t" "\<not> crashed t" "i < length (rings t)"
    "pos_z (plane t) < pos_z (position (rings t ! i))"
  shows "checked (rings t ! i)"
proof -
  from assms(2,1) obtain p where t: "t = checkRings (s\<lparr>pitch := p,
      plane := (plane s)\<lparr>pos_z := pos_z (plane s) - speed, pos_y := pos_y (plane s) - p\<rparr>\<rparr>)"
    by (rule animate_tick)
  let ?m = "s\<lparr>pitch := p,
      plane := (plane s)\<lparr>pos_z := pos_z (plane s) - speed, pos_y := pos_y (plane s) - p\<rparr>\<rparr>"
  have len: "i < length (rings ?m)"
    using assms(4) t by simp
  from assms(3) t have "firstHit (plane ?m) (rings ?m) = length (rings ?m)"
    using checkRings_crashed [of ?m]
    by (simp add: firstHit_def) (metis le_neq_implies_less length_takeWhile_le)
  with len have r: "rings t ! i = process (plane ?m) (rings ?m ! i)"
    unfolding t by (simp add: nth_checkRings)
  have "plane t = plane ?m"
    unfolding t by simp
  with assms(5) r show ?thesis
    by (auto simp add: process_def passed_def)
qed

lemma run_append:
  "run (tr @ tr') s = (case run tr s of None \<Rightarrow> None | Some s' \<Rightarrow> run tr' s')"
proof (induction tr arbitrary: s)
  case Nil
  show ?case
    by simp
next
  case (Cons pe tr)
  then show ?case
    by (cases pe) (simp split: option.splits)
qed

lemma run_frames_cruise:
  "n + k \<le> 120 \<Longrightarrow> run (replicate k (gentlePad, AnimationFrame)) (cruise n) = Some (cruise (n + k))"
proof (induction k arbitrary: n)
  case 0
  show ?case
    by simp
next
  case (Suc k)
  then have "animate gentlePad (cruise n) = Some (cruise (Suc n))"
    by (simp add: frame_cruise)
  moreover have "run (replicate k (gentlePad, AnimationFrame)) (cruise (Suc n)) =
      Some (cruise (Suc n + k))"
    using Suc.prems by (intro Suc.IH) simp
  ultimately show ?case
    by simp
qed

lemma run_crashRun: "run crashRun initialGame = Some downed"
proof -
  have "replicate 120 (gentlePad, AnimationFrame) =
      replicate 119 (gentlePad, AnimationFrame) @ [(gentlePad, AnimationFrame)]"
    using replicate_add [of 119 1 "(gentlePad, AnimationFrame)"] by simp
  moreover have "run (replicate 119 (gentlePad, AnimationFrame)) (cruise 1) = Some (cruise 120)"
    using run_frames_cruise [of 1 119] by simp
  ultimately have "run (replicate 120 (gentlePad, AnimationFrame)) (cruise 1) = Some downed"
    by (simp add: run_append frame_cruise_120)
  then show ?thesis
    using connect_gentle by (simp add: crashRun_def del: handle.simps)
qed

lemma crashRun_no_restart: "\<forall>pe \<in> set crashRun. \<not> restarts (snd pe)"
  by (simp add: crashRun_def)

lemma frame_downed: "handle gentlePad AnimationFrame downed = Some downed"
  by (simp add: animate_def)

text \<open>
  C6 as claimed (the flag of every ring goes from false to true exactly once over a
  playthrough) fails: a pad with its stick a third of the way down is connected and 120
  more frames run, the last of which hits the first ring. The game has crashed, the
  flag of the first ring has gone to true once and the flag of the second ring not at
  all; a further frame changes nothing.
\<close>

theorem checked_never_set_counterexample:
  "run crashRun initialGame = Some downed \<and> reachable downed \<and> crashed downed \<and>
   \<not> checked (rings initialGame ! 1) \<and> \<not> checked (rings downed ! 1) \<and>
   flips 0 crashRun initialGame = 1 \<and>
   flips 1 crashRun initialGame = 0 \<and>
   run (crashRun @ [(gentlePad, AnimationFrame)]) initialGame = Some downed \<and>
   flips 1 (crashRun @ [(gentlePad, AnimationFrame)]) initialGame = 0"
proof -
  have len: "0 < length (rings initialGame)" "1 < length (rings initialGame)"
    by (simp_all add: length_createRings)
  have c: "\<not> checked (rings initialGame ! 0)" "\<not> checked (rings initialGame ! 1)"
    "checked (rings downed ! 0)" "\<not> checked (rings downed ! 1)"
    by (simp_all add: downed_def createRings_eq newRing_def)
  have r: "run (crashRun @ [(gentlePad, AnimationFrame)]) initialGame = Some downed"
    by (simp add: run_append run_crashRun frame_downed del: handle.simps)
  have nr: "\<forall>pe \<in> set (crashRun @ [(gentlePad, AnimationFrame)]). \<not> restarts (snd pe)"
    using crashRun_no_restart by simp
  have "flips 0 crashRun initialGame = 1" "flips 1 crashRun initialGame = 0"
    using flips_run [OF run_crashRun crashRun_no_restart] len c by simp_all
  moreover have "flips 1 (crashRun @ [(gentlePad, AnimationFrame)]) initialGame = 0"
    using flips_run [OF r nr len(2)] c by simp
  ultimately show ?thesis
    using run_crashRun reachable_downed r c by simp
qed

text \<open>
  C6, amended. When \<^verbatim>\<open>checkRings\<close> processes ring \<open>i\<close>, it sets its flag \<^verbatim>\<open>checked\<close>,
  whatever the outcome, and setting the flag of an unchecked ring is the only change it
  makes to a ring. After a frame of a running game that has not crashed, every ring
  behind which the plane is has its flag set. No event other than a restart clears a
  flag that is set, and in a crashed game no such event changes a ring. Hence along any
  sequence of events without a restart the flag of a ring goes from false to true at
  most once: once if the ring is unchecked at the start and checked at the end, and
  never otherwise. A restart clears every flag.
\<close>

theorem checked_set_at_most_once:
  "(i < length (rings s) \<and> passed (plane s) (rings s ! i) \<longrightarrow>
      rings (checkRingsFrom i s) ! i = (rings s ! i)\<lparr>checked := True\<rparr>) \<and>
   (i < length (rings s) \<and> rings (checkRings s) ! i \<noteq> rings s ! i \<longrightarrow>
      \<not> checked (rings s ! i) \<and> rings (checkRings s) ! i = (rings s ! i)\<lparr>checked := True\<rparr>) \<and>
   (running s \<and> animate pads s = Some t \<and> \<not> crashed t \<and> i < length (rings t) \<and>
    pos_z (plane t) < pos_z (position (rings t ! i)) \<longrightarrow> checked (rings t ! i)) \<and>
   (handle pads e s = Some t \<and> \<not> restarts e \<and> i < length (rings s) \<and> checked (rings s ! i) \<longrightarrow>
      checked (rings t ! i)) \<and>
   (run tr s = Some u \<and> (\<forall>pe \<in> set tr. \<not> restarts (snd pe)) \<and> i < length (rings s) \<longrightarrow>
      flips i tr s = (if \<not> checked (rings s ! i) \<and> checked (rings u ! i) then 1 else 0) \<and>
      flips i tr s \<le> 1) \<and>
   (i < length (rings s) \<longrightarrow> \<not> checked (rings (restartGame s) ! i)) \<and>
   (handle pads e s = Some t \<and> \<not> restarts e \<and> crashed s \<longrightarrow> rings t = rings s \<and> crashed t)"
proof (intro conjI impI)
  assume "i < length (rings s) \<and> passed (plane s) (rings s ! i)"
  then show "rings (checkRingsFrom i s) ! i = (rings s ! i)\<lparr>checked := True\<rparr>"
    by (simp add: nth_checkRingsFrom process_def)
next
  assume a: "i < length (rings s) \<and> rings (checkRings s) ! i \<noteq> rings s ! i"
  then show "\<not> checked (rings s ! i)"
    by (auto simp add: nth_checkRings process_def passed_def split: if_splits)
  from a show "rings (checkRings s) ! i = (rings s ! i)\<lparr>checked := True\<rparr>"
    by (auto simp add: nth_checkRings process_def split: if_splits)
next
  assume "running s \<and> animate pads s = Some t \<and> \<not> crashed t \<and> i < length (rings t) \<and>
    pos_z (plane t) < pos_z (position (rings t ! i))"
  then show "checked (rings t ! i)"
    using animate_checks_passed [of s pads t i] by blast
next
  assume "handle pads e s = Some t \<and> \<not> restarts e \<and> i < length (rings s) \<and> checked (rings s ! i)"
  then show "checked (rings t ! i)"
    using handle_checked [of pads e s t i] by blast
next
  assume "run tr s = Some u \<and> (\<forall>pe \<in> set tr. \<not> restarts (snd pe)) \<and> i < length (rings s)"
  then show f: "flips i tr s = (if \<not> checked (rings s ! i) \<and> checked (rings u ! i) then 1 else 0)"
    using flips_run [of tr s u i] by blast
  show "flips i tr s \<le> 1"
    unfolding f by simp
next
  assume "i < length (rings s)"
  then show "\<not> checked (rings (restartGame s) ! i)"
    by simp
next
  assume "handle pads e s = Some t \<and> \<not> restarts e \<and> crashed s"
  then show "rings t = rings s" "crashed t"
    using handle_crashed [of pads e s t] by blast+
qed

text \<open>
  Two frames of the game \<open>crossing 0\<close>: the first sets the flag of the second ring, the
  second leaves it set. A frame of the crashed game \<open>downed\<close>.
\<close>

theorem checked_set_at_most_once_witness:
  "run [(noPads, AnimationFrame), (noPads, AnimationFrame)] (crossing 0) =
     Some (flown\<lparr>plane := \<lparr> pos_x = 0, pos_y = 0, pos_z = 100 - speed - speed \<rparr>\<rparr>) \<and>
   \<not> restarts AnimationFrame \<and> 1 < length (rings (crossing 0)) \<and>
   \<not> checked (rings (crossing 0) ! 1) \<and> checked (rings flown ! 1) \<and>
   running (crossing 0) \<and> animate noPads (crossing 0) = Some flown \<and> \<not> crashed flown \<and>
   pos_z (plane flown) < pos_z (position (rings flown ! 1)) \<and>
   flips 1 [(noPads, AnimationFrame), (noPads, AnimationFrame)] (crossing 0) = 1 \<and>
   handle noPads AnimationFrame flown =
     Some (flown\<lparr>plane := \<lparr> pos_x = 0, pos_y = 0, pos_z = 100 - speed - speed \<rparr>\<rparr>) \<and>
   checked (rings (flown\<lparr>plane := \<lparr> pos_x = 0, pos_y = 0, pos_z = 100 - speed - speed \<rparr>\<rparr>) ! 1) \<and>
   passed (plane (crossing 0)) (rings (crossing 0) ! 1) \<and>
   checked (rings (checkRingsFrom 1 (crossing 0)) ! 1) \<and>
   crashed downed \<and> handle gentlePad AnimationFrame downed = Some downed"
proof -
  let ?tr = "[(noPads, AnimationFrame), (noPads, AnimationFrame)]"
  let ?u = "flown\<lparr>plane := \<lparr> pos_x = 0, pos_y = 0, pos_z = 100 - speed - speed \<rparr>\<rparr>"
  have len: "1 < length (rings (crossing 0))"
    by (simp add: twoRings_eq)
  have nr: "\<forall>pe \<in> set ?tr. \<not> restarts (snd pe)"
    by simp
  have p: "passed (plane (crossing 0)) (rings (crossing 0) ! 1)"
    by (simp add: twoRings_eq passed_def)
  have h: "handle noPads AnimationFrame flown = Some ?u"
    by (simp add: frame_flown)
  have c: "checked (rings flown ! 1)"
    by (simp add: flown_def twoRings_eq)
  note t = checked_set_at_most_once [where i = 1 and s = "crossing 0" and tr = ?tr and u = ?u]
  from t len p have "rings (checkRingsFrom 1 (crossing 0)) ! 1 = (rings (crossing 0) ! 1)\<lparr>checked := True\<rparr>"
    by blast
  moreover from t run_crossing_0 nr len
  have "flips 1 ?tr (crossing 0) =
      (if \<not> checked (rings (crossing 0) ! 1) \<and> checked (rings ?u ! 1) then 1 else 0)"
    by blast
  moreover from checked_set_at_most_once [where i = 1 and s = flown and pads = noPads
      and e = AnimationFrame and t = ?u] h c
  have "checked (rings ?u ! 1)"
    by (simp add: flown_def twoRings_eq)
  moreover from checked_set_at_most_once [where i = 1 and s = "crossing 0" and pads = noPads and t = flown]
    frame_crossing_0
  have "checked (rings flown ! 1)"
    by (simp add: running_def flown_def twoRings_eq speed_eq)
  moreover from checked_set_at_most_once [where s = downed and pads = gentlePad
      and e = AnimationFrame and t = downed] frame_downed
  have "crashed downed"
    by simp
  ultimately show ?thesis
    using run_crossing_0 h c p len frame_crossing_0 frame_downed
    by (simp add: twoRings_eq running_def flown_def speed_eq del: handle.simps)
qed

subsection \<open>The score\<close>

text \<open>
  C9. A frame never lowers the score and changes it only in a running game, where it
  adds 1 for each ring scored in that frame: each ring before the first one hit that
  is unchecked, behind which the plane is and whose distance is below \<open>innerRadius\<close>. No
  event other than a restart lowers the score; once the game is crashed, no such event
  changes the score or the crashed flag; a restart sets the score to 0. So along any
  sequence of events without a restart the score does not decrease.
\<close>

theorem score_monotone:
  "(animate pads s = Some t \<longrightarrow> score s \<le> score t \<and> (score t \<noteq> score s \<longrightarrow> running s)) \<and>
   (running s \<and> animate pads s = Some t \<longrightarrow>
      score t = score s + int (length (filter (scores (plane t))
                                 (take (firstHit (plane t) (rings s)) (rings s))))) \<and>
   scores p r = (\<not> checked r \<and> pos_z p < pos_z (position r) \<and> distance p r < innerRadius) \<and>
   (handle pads e s = Some u \<and> \<not> restarts e \<longrightarrow> score s \<le> score u) \<and>
   (handle pads e s = Some u \<and> \<not> restarts e \<and> crashed s \<longrightarrow> score u = score s \<and> crashed u) \<and>
   (handle pads e s = Some u \<and> restarts e \<longrightarrow> score u = 0) \<and>
   (run tr s = Some v \<and> (\<forall>pe \<in> set tr. \<not> restarts (snd pe)) \<longrightarrow> score s \<le> score v)"
proof (intro conjI impI)
  assume a: "animate pads s = Some t"
  then have "handle pads AnimationFrame s = Some t"
    by simp
  then show "score s \<le> score t"
    by (rule handle_score) simp
  from a show "running s" if "score t \<noteq> score s"
    using that by (auto simp add: animate_def running_def split: if_splits)
next
  assume "running s \<and> animate pads s = Some t"
  then show "score t = score s + int (length (filter (scores (plane t))
                                 (take (firstHit (plane t) (rings s)) (rings s))))"
    using animate_score [of pads s t] by blast
next
  show "scores p r = (\<not> checked r \<and> pos_z p < pos_z (position r) \<and> distance p r < innerRadius)"
    by (auto simp add: scores_def passed_def judge_iff)
next
  assume "handle pads e s = Some u \<and> \<not> restarts e"
  then show "score s \<le> score u"
    using handle_score [of pads e s u] by blast
next
  assume a: "handle pads e s = Some u \<and> \<not> restarts e \<and> crashed s"
  then show "score u = score s" "crashed u"
    using handle_crashed [of pads e s u] by blast+
next
  assume "handle pads e s = Some u \<and> restarts e"
  then show "score u = 0"
    by (auto simp add: handle_restarts)
next
  assume "run tr s = Some v \<and> (\<forall>pe \<in> set tr. \<not> restarts (snd pe))"
  then show "score s \<le> score v"
    using run_score [of tr s v] by blast
qed

text \<open>
  A frame of the game \<open>crossing (- 2)\<close> scores the first ring and hits the second; a
  further frame changes nothing; the space bar then sets the score to 0.
\<close>

theorem score_monotone_witness:
  "running (crossing (- 2)) \<and> animate noPads (crossing (- 2)) = Some clipped \<and>
   score (crossing (- 2)) = 0 \<and> score clipped = 1 \<and> crashed clipped \<and>
   firstHit (plane clipped) (rings (crossing (- 2))) = 1 \<and>
   scores (plane clipped) (rings (crossing (- 2)) ! 0) \<and>
   \<not> restarts AnimationFrame \<and> handle noPads AnimationFrame clipped = Some clipped \<and>
   restarts (KeyDown '' '' ''Space'') \<and>
   handle noPads (KeyDown '' '' ''Space'') clipped = Some (restartGame clipped) \<and>
   score (restartGame clipped) = 0 \<and>
   run [(noPads, AnimationFrame), (noPads, AnimationFrame)] (crossing (- 2)) = Some clipped"
proof -
  have f: "handle noPads AnimationFrame clipped = Some clipped"
    by (simp add: animate_def)
  have r: "run [(noPads, AnimationFrame), (noPads, AnimationFrame)] (crossing (- 2)) = Some clipped"
    by (simp only: run.simps handle.simps frame_crossing_m2 f [simplified] option.case)
  have k: "handle noPads (KeyDown '' '' ''Space'') clipped = Some (restartGame clipped)"
    by simp
  note t = score_monotone [of noPads "crossing (- 2)" clipped "plane clipped"
      "rings (crossing (- 2)) ! 0" AnimationFrame _
      "[(noPads, AnimationFrame), (noPads, AnimationFrame)]" clipped]
  have run: "running (crossing (- 2))"
    by (simp add: running_def)
  from t run frame_crossing_m2
  have "score clipped = score (crossing (- 2)) + int (length (filter (scores (plane clipped))
          (take (firstHit (plane clipped) (rings (crossing (- 2)))) (rings (crossing (- 2))))))"
    by blast
  moreover from score_monotone [of noPads clipped clipped _ _ AnimationFrame clipped] f
  have "score clipped = score clipped \<and> crashed clipped"
    by simp
  moreover from score_monotone [of noPads clipped _ _ _ "KeyDown '' '' ''Space''" "restartGame clipped"] k
  have "score (restartGame clipped) = 0"
    by simp
  moreover from t r have "score (crossing (- 2)) \<le> score clipped"
    by simp
  ultimately show ?thesis
    using run frame_crossing_m2 f k r
    by (simp add: firstHit_def hits_def scores_def twoRings_eq passed_def distance_def judge_def
        radii speed_eq)
qed

end
